theory Spec2Isabelle
  imports Complex_Main
begin

section \<open>JavaScript values and arrays\<close>

text \<open>
  Numbers that the functions of \<^verbatim>\<open>02_array.ts\<close> and \<^verbatim>\<open>06_stack.ts\<close> use as
  counts and indices are modelled as mathematical integers (\<open>int\<close>): the model speaks
  about integer-valued arguments inside the range in which a double is exact.
  A dense array of element type \<open>'a\<close> is an \<open>'a list\<close>. What a read returns is a
  \<open>jsval\<close>: the element, or one of the two "no value" results of the language.
\<close>

datatype 'a jsval = Undefined | Null | Val 'a

text \<open>\<^verbatim>\<open>a[i]\<close> for an integer \<open>i\<close>: the element when \<open>0 \<le> i < a.length\<close>, else \<^verbatim>\<open>undefined\<close>.\<close>

definition array_get :: "'a list \<Rightarrow> int \<Rightarrow> 'a jsval" where
  "array_get a i = (if 0 \<le> i \<and> i < int (length a) then Val (a ! nat i) else Undefined)"

text \<open>
  The relative index of \<^verbatim>\<open>Array.prototype.slice\<close>: a negative argument counts from
  the end, and the result is clamped to \<open>[0, len]\<close>.
\<close>

definition rel_index :: "int \<Rightarrow> int \<Rightarrow> int" where
  "rel_index len i = (if i < 0 then max (len + i) 0 else min i len)"

text \<open>
  \<^verbatim>\<open>a.slice(start, end)\<close>; an omitted \<open>start\<close> is 0 and an omitted \<open>end\<close> is the
  length. The copy holds the elements from the relative start up to, and without, the
  relative end (none when the end is not after the start).
\<close>

definition array_slice :: "'a list \<Rightarrow> int option \<Rightarrow> int option \<Rightarrow> 'a list" where
  "array_slice a start end =
     (let len = int (length a);
          k = (case start of None \<Rightarrow> 0 | Some s \<Rightarrow> rel_index len s);
          final = (case end of None \<Rightarrow> len | Some e \<Rightarrow> rel_index len e)
      in take (nat (final - k)) (drop (nat k) a))"

section \<open>The stack of \<^verbatim>\<open>06_stack.ts\<close>\<close>

record 'a Stack =
  array :: "'a list"

text \<open>\<^verbatim>\<open>constructor() { this.array = new Array<T>(); }\<close>\<close>

definition new_Stack :: "'a Stack" where
  "new_Stack = \<lparr>array = []\<rparr>"

text \<open>\<^verbatim>\<open>get size(): number { return this.array.length; }\<close>\<close>

definition size_of :: "'a Stack \<Rightarrow> int" where
  "size_of s = int (length (array s))"

text \<open>
  \<^verbatim>\<open>pop(): T { const top = this.array[0]; this.array = this.array.slice(1); return top; }\<close>
  The result is the value returned and the stack afterwards.
\<close>

definition pop :: "'a Stack \<Rightarrow> 'a jsval \<times> 'a Stack" where
  "pop s = (let top = array_get (array s) 0
            in (top, s\<lparr>array := array_slice (array s) (Some 1) None\<rparr>))"

text \<open>\<^verbatim>\<open>peek(): T { return this.array.length ? this.array[0] : null; }\<close>\<close>

definition peek :: "'a Stack \<Rightarrow> 'a jsval" where
  "peek s = (if length (array s) \<noteq> 0 then array_get (array s) 0 else Null)"

text \<open>\<^verbatim>\<open>toArray(): T[] { return this.array; }\<close>\<close>

definition toArray :: "'a Stack \<Rightarrow> 'a list" where
  "toArray s = array s"

text \<open>\<^verbatim>\<open>push(value: T) { this.array = [value, ...this.array]; }\<close>\<close>

definition push :: "'a \<Rightarrow> 'a Stack \<Rightarrow> 'a Stack" where
  "push v s = s\<lparr>array := v # array s\<rparr>"

text \<open>
  A caller's sequence of operations on one stack, and the stack that the run of such a
  sequence leaves. \<open>peek\<close> and \<open>toArray\<close> only read: they assign nothing to
  \<^verbatim>\<open>this.array\<close>.
\<close>

datatype 'a stack_op = Push 'a | Pop | Peek | ToArray

fun step :: "'a stack_op \<Rightarrow> 'a Stack \<Rightarrow> 'a Stack" where
  "step (Push v) s = push v s"
| "step Pop s = snd (pop s)"
| "step Peek s = s"
| "step ToArray s = s"

fun run :: "'a stack_op list \<Rightarrow> 'a Stack \<Rightarrow> 'a Stack" where
  "run [] s = s"
| "run (x # xs) s = run xs (step x s)"

text \<open>
  The number of elements held after a sequence of operations, counted without looking
  at the stack: a push adds one, a pop takes one away when there is one to take.
\<close>

fun held :: "'a stack_op list \<Rightarrow> int \<Rightarrow> int" where
  "held [] n = n"
| "held (Push v # xs) n = held xs (n + 1)"
| "held (Pop # xs) n = held xs (if 0 < n then n - 1 else n)"
| "held (Peek # xs) n = held xs n"
| "held (ToArray # xs) n = held xs n"

section \<open>The array functions of \<^verbatim>\<open>02_array.ts\<close>\<close>

text \<open>
  The predicate interfaces \<^verbatim>\<open>DropWhilePredicate\<close> and \<^verbatim>\<open>FindIndexPredicate\<close>:
  \<^verbatim>\<open>(value?: T, index?: number, collection?: Array<T>): boolean\<close>.
\<close>

type_synonym 'a predicate = "'a \<Rightarrow> int \<Rightarrow> 'a list \<Rightarrow> bool"

text \<open>
  \<^verbatim>\<open>a.findIndex(p)\<close> of the language: it calls \<open>p(a[k], k, a)\<close> for \<open>k = 0, 1, \<dots>\<close>
  and returns the first \<open>k\<close> for which the call is true, or \<open>-1\<close> when none is.
\<close>

fun find_from :: "'a predicate \<Rightarrow> 'a list \<Rightarrow> 'a list \<Rightarrow> int \<Rightarrow> int" where
  "find_from p a [] k = - 1"
| "find_from p a (x # xs) k = (if p x k a then k else find_from p a xs (k + 1))"

definition array_findIndex :: "'a list \<Rightarrow> 'a predicate \<Rightarrow> int" where
  "array_findIndex a p = find_from p a a 0"

text \<open>
  \<^verbatim>\<open>Array(n)\<close> throws a \<^verbatim>\<open>RangeError\<close> unless \<open>n\<close> is an integer in \<open>[0, 2^32)\<close>;
  otherwise it is an array of \<open>n\<close> empty slots (\<open>None\<close>).
\<close>

datatype error = RangeError

definition Array_n :: "int \<Rightarrow> error + int option list" where
  "Array_n n = (if 0 \<le> n \<and> n < 4294967296 then Inr (replicate (nat n) None)
                else Inl RangeError)"

text \<open>\<^verbatim>\<open>a.fill(v)\<close> with no range: every slot of \<open>a\<close> becomes \<open>v\<close>.\<close>

definition array_fill :: "'b option list \<Rightarrow> 'b \<Rightarrow> 'b option list" where
  "array_fill a v = map (\<lambda>_. Some v) a"

text \<open>
  \<^verbatim>\<open>a.map((x, i) => f(x, i))\<close>: empty slots are skipped and stay empty, a filled slot
  \<open>i\<close> becomes \<open>f(a[i], i)\<close>.
\<close>

definition array_map :: "('b \<Rightarrow> int \<Rightarrow> 'c) \<Rightarrow> 'b option list \<Rightarrow> 'c option list" where
  "array_map f a = map (\<lambda>(x, i). map_option (\<lambda>y. f y (int i)) x) (zip a [0..<length a])"

text \<open>
  \<^verbatim>\<open>
  export function chunk<T>(input: Array<T>, size: number = 1): Array<Array<T>> {
    return Array(Math.ceil(input.length / size))
      .fill(0)
      .map((_, i) => input.slice(i * size, i * size + size));
  }
  \<close>
  For \<open>size = 0\<close> the quotient is \<^verbatim>\<open>Infinity\<close> or \<^verbatim>\<open>NaN\<close>, which \<^verbatim>\<open>Array\<close> rejects.
  The result is an array whose slots are all filled; it is returned with its slots.
\<close>

definition chunk :: "'a list \<Rightarrow> int option \<Rightarrow> error + 'a list option list" where
  "chunk input size_arg =
     (let sz = (case size_arg of None \<Rightarrow> 1 | Some s \<Rightarrow> s)
      in if sz = 0 then Inl RangeError
         else (case Array_n \<lceil>real_of_int (int (length input)) / real_of_int sz\<rceil> of
                 Inl e \<Rightarrow> Inl e
               | Inr slots \<Rightarrow>
                   Inr (array_map
                          (\<lambda>_ i. array_slice input (Some (i * sz)) (Some (i * sz + sz)))
                          (array_fill slots (0::int)))))"

text \<open>
  \<^verbatim>\<open>
  export function drop(input: Array<any>, count: number = 1): Array<any> {
    return input.slice(count, input.length);
  }
  \<close>
\<close>

definition drop_arr :: "'a list \<Rightarrow> int option \<Rightarrow> 'a list" where
  "drop_arr input count_arg =
     (let count = (case count_arg of None \<Rightarrow> 1 | Some c \<Rightarrow> c)
      in array_slice input (Some count) (Some (int (length input))))"

text \<open>
  \<^verbatim>\<open>
  export function dropRight(input: Array<any>, count: number = 1): Array<any> {
    return input.slice(0, input.length - count);
  }
  \<close>
\<close>

definition dropRight :: "'a list \<Rightarrow> int option \<Rightarrow> 'a list" where
  "dropRight input count_arg =
     (let count = (case count_arg of None \<Rightarrow> 1 | Some c \<Rightarrow> c)
      in array_slice input (Some 0) (Some (int (length input) - count)))"

text \<open>
  \<^verbatim>\<open>
  function negate<T>(predicate: DropWhilePredicate<T>): DropWhilePredicate<T> {
    return function () { return !predicate.apply(this, arguments); };
  }
  \<close>
\<close>

definition negate :: "'a predicate \<Rightarrow> 'a predicate" where
  "negate predicate = (\<lambda>v i c. \<not> predicate v i c)"

text \<open>
  \<^verbatim>\<open>
  export function dropWhile<T>(collection: Array<T>, predicate: DropWhilePredicate<T>): Array<T> {
    const startIndex = collection.findIndex(negate(predicate));
    return collection.slice(startIndex, collection.length);
  }
  \<close>
\<close>

definition dropWhile_arr :: "'a list \<Rightarrow> 'a predicate \<Rightarrow> 'a list" where
  "dropWhile_arr collection predicate =
     (let startIndex = array_findIndex collection (negate predicate)
      in array_slice collection (Some startIndex) (Some (int (length collection))))"

text \<open>
  \<^verbatim>\<open>
  export function dropRightWhile<T>(collection: Array<T>, predicate: DropWhilePredicate<T>) {
    const endOffset = collection.slice().reverse().findIndex(negate(predicate));
    return collection.slice(0, collection.length - endOffset);
  }
  \<close>
\<close>

definition dropRightWhile :: "'a list \<Rightarrow> 'a predicate \<Rightarrow> 'a list" where
  "dropRightWhile collection predicate =
     (let endOffset = array_findIndex (rev (array_slice collection None None)) (negate predicate)
      in array_slice collection (Some 0) (Some (int (length collection) - endOffset)))"

text \<open>
  \<^verbatim>\<open>
  export function findIndex<T>(collection: Array<T>, predicate: FindIndexPredicate<T>,
                               startIndex: number = 0): number {
    const foundIndex = collection.slice(startIndex).findIndex(predicate);
    return foundIndex == -1 ? foundIndex : startIndex + foundIndex;
  }
  \<close>
\<close>

definition findIndex :: "'a list \<Rightarrow> 'a predicate \<Rightarrow> int option \<Rightarrow> int" where
  "findIndex collection predicate startIndex_arg =
     (let startIndex = (case startIndex_arg of None \<Rightarrow> 0 | Some s \<Rightarrow> s);
          foundIndex = array_findIndex (array_slice collection (Some startIndex) None) predicate
      in if foundIndex = - 1 then foundIndex else startIndex + foundIndex)"

text \<open>
  \<^verbatim>\<open>
  export function findLastIndex<T>(collection: Array<T>, predicate: FindIndexPredicate<T>,
                                   startIndex: number = collection.length - 1) {
    for (let i = startIndex; i >= 0; i--) {
      if (predicate(collection[i], i, collection)) return i;
    }
    return -1;
  }
  \<close>
  The predicate's first parameter is optional, so it may receive \<^verbatim>\<open>undefined\<close> when the
  start index lies beyond the array; the model gives the predicate a \<open>jsval\<close> there.
\<close>

function findLastIndex_loop :: "'a list \<Rightarrow> ('a jsval \<Rightarrow> int \<Rightarrow> 'a list \<Rightarrow> bool) \<Rightarrow> int \<Rightarrow> int"
  where
  "findLastIndex_loop collection predicate i =
     (if i \<ge> 0
      then (if predicate (array_get collection i) i collection then i
            else findLastIndex_loop collection predicate (i - 1))
      else - 1)"
  by pat_completeness auto
termination
  by (relation "measure (\<lambda>(c, p, i). nat (i + 1))") auto

definition findLastIndex :: "'a list \<Rightarrow> ('a jsval \<Rightarrow> int \<Rightarrow> 'a list \<Rightarrow> bool) \<Rightarrow> int option \<Rightarrow> int"
  where
  "findLastIndex collection predicate startIndex_arg =
     (let startIndex = (case startIndex_arg of None \<Rightarrow> int (length collection) - 1 | Some s \<Rightarrow> s)
      in findLastIndex_loop collection predicate startIndex)"

subsection \<open>\<open>fill\<close>, on a store of arrays\<close>

text \<open>
  \<open>fill\<close> copies its argument and then assigns into the copy, so it is modelled on a
  store. An array object has its slots (index properties \<open>0 \<dots> length - 1\<close>, \<open>None\<close>
  for an empty slot, which reads as \<^verbatim>\<open>undefined\<close>) and its other integer-named
  properties (\<^verbatim>\<open>a[-1] = v\<close> creates the property \<^verbatim>\<open>"-1"\<close>, which is no element).
  A store is the list of the objects allocated so far, and a reference is a position in it.
\<close>

record 'a jsarray =
  cells :: "'a option list"
  props :: "int \<Rightarrow> 'a option"

type_synonym 'a heap = "'a jsarray list"

definition dense :: "'a list \<Rightarrow> 'a jsarray" where
  "dense xs = \<lparr>cells = map Some xs, props = (\<lambda>_. None)\<rparr>"

definition alloc :: "'a heap \<Rightarrow> 'a jsarray \<Rightarrow> nat \<times> 'a heap" where
  "alloc h a = (length h, h @ [a])"

text \<open>
  \<^verbatim>\<open>a[i] = v\<close> for an integer \<open>i\<close>. An array index is an integer in \<open>[0, 2^32 - 1)\<close>:
  writing at or beyond the length extends the array, leaving empty slots in between.
  Any other integer names an ordinary property and the length stays.
\<close>

definition array_put :: "'a jsarray \<Rightarrow> int \<Rightarrow> 'a \<Rightarrow> 'a jsarray" where
  "array_put a i v =
     (if 0 \<le> i \<and> i < 4294967295
      then (let n = nat i; cs = cells a
            in a\<lparr>cells := (if n < length cs then cs[n := Some v]
                             else cs @ replicate (n - length cs) None @ [Some v])\<rparr>)
      else a\<lparr>props := (props a)(i := Some v)\<rparr>)"

text \<open>
  \<^verbatim>\<open>
  export function fill<T>(collection: Array<T>, replacement: T,
                          startIndex: number, endIndex: number) {
    const result = collection.slice();
    for (let i = startIndex; i < endIndex; i++) {
      result[i] = replacement;
    }
    return result;
  }
  \<close>
  \<open>slice()\<close> copies the slots (empty ones stay empty) and none of the other properties.
  \<open>fill\<close> returns the reference of the new array and the store afterwards.
\<close>

function fill_loop :: "'a heap \<Rightarrow> nat \<Rightarrow> 'a \<Rightarrow> int \<Rightarrow> int \<Rightarrow> 'a heap" where
  "fill_loop h result replacement i endIndex =
     (if i < endIndex
      then fill_loop (h[result := array_put (h ! result) i replacement])
             result replacement (i + 1) endIndex
      else h)"
  by pat_completeness auto
termination
  by (relation "measure (\<lambda>(h, r, v, i, e). nat (e - i))") auto

definition fill :: "'a heap \<Rightarrow> nat \<Rightarrow> 'a \<Rightarrow> int \<Rightarrow> int \<Rightarrow> nat \<times> 'a heap" where
  "fill h collection replacement startIndex endIndex =
     (let (result, h1) =
            alloc h \<lparr>cells = array_slice (cells (h ! collection)) None None,
                     props = (\<lambda>_. None)\<rparr>
      in (result, fill_loop h1 result replacement startIndex endIndex))"

text \<open>The slots of the array that \<open>fill\<close> returns, read from the store it leaves.\<close>

definition fill_result :: "'a heap \<Rightarrow> nat \<Rightarrow> 'a \<Rightarrow> int \<Rightarrow> int \<Rightarrow> 'a option list" where
  "fill_result h collection replacement startIndex endIndex =
     cells (snd (fill h collection replacement startIndex endIndex)
              ! fst (fill h collection replacement startIndex endIndex))"

text \<open>An index clamped to the bounds \<open>[0, len]\<close> of a sequence of length \<open>len\<close>.\<close>

definition clamp_index :: "int \<Rightarrow> int \<Rightarrow> int" where
  "clamp_index len i = max 0 (min i len)"

text \<open>The array object that \<open>fill\<close> returns, read from the store it leaves.\<close>

definition fill_object :: "'a heap \<Rightarrow> nat \<Rightarrow> 'a \<Rightarrow> int \<Rightarrow> int \<Rightarrow> 'a jsarray" where
  "fill_object h collection replacement startIndex endIndex =
     snd (fill h collection replacement startIndex endIndex)
       ! fst (fill h collection replacement startIndex endIndex)"

subsection \<open>\<open>nth\<close>, a property read\<close>

text \<open>
  \<^verbatim>\<open>a[i]\<close> for an integer \<open>i\<close> on an array object: inside \<open>[0, length)\<close> it is the
  slot (an empty slot reads as \<^verbatim>\<open>undefined\<close>); any other integer is looked up among
  the object's other properties, and reads as \<^verbatim>\<open>undefined\<close> when there is none.
\<close>

definition array_read :: "'a jsarray \<Rightarrow> int \<Rightarrow> 'a jsval" where
  "array_read a i =
     (if 0 \<le> i \<and> i < int (length (cells a))
      then (case cells a ! nat i of None \<Rightarrow> Undefined | Some v \<Rightarrow> Val v)
      else (case props a i of None \<Rightarrow> Undefined | Some v \<Rightarrow> Val v))"

text \<open>
  \<^verbatim>\<open>export function nth<T>(array: Array<T>, n: number = 0): T { return array[n]; }\<close>
  The argument is any array object, such as the ones \<open>fill\<close> returns.
\<close>

definition nth_arr :: "'a jsarray \<Rightarrow> int option \<Rightarrow> 'a jsval" where
  "nth_arr a n_arg = (let n = (case n_arg of None \<Rightarrow> 0 | Some m \<Rightarrow> m) in array_read a n)"

section \<open>Facts about slices\<close>

lemma array_slice_tail: "array_slice a (Some 1) None = drop 1 a"
  by (cases a) (simp_all add: array_slice_def rel_index_def)

lemma array_slice_nonneg:
  "0 \<le> s \<Longrightarrow> s \<le> e \<Longrightarrow> array_slice a (Some s) (Some e) = take (nat (e - s)) (drop (nat s) a)"
  by (auto simp: array_slice_def rel_index_def Let_def min_def)

lemma array_slice_from:
  "0 \<le> s \<Longrightarrow> array_slice a (Some s) None = drop (nat s) a"
  by (auto simp: array_slice_def rel_index_def Let_def min_def)

lemma array_slice_copy: "array_slice a None None = a"
  by (simp add: array_slice_def)

lemma drop_arr_eq: "0 \<le> c \<Longrightarrow> drop_arr a (Some c) = drop (nat c) a"
  by (auto simp: drop_arr_def array_slice_def rel_index_def Let_def min_def)

lemma dropRight_eq:
  "0 \<le> c \<Longrightarrow> dropRight a (Some c) =
     (if c \<le> int (length a) then take (length a - nat c) a
      else take (2 * length a - nat c) a)"
  by (auto simp: dropRight_def array_slice_def rel_index_def Let_def min_def max_def nat_diff_distrib intro: arg_cong2[where f=take])

lemma find_from_value:
  "find_from (\<lambda>v i c. q v) a xs k =
     (if \<forall>x\<in>set xs. \<not> q x then - 1 else k + int (length (takeWhile (\<lambda>x. \<not> q x) xs)))"
  by (induction xs arbitrary: k) auto

lemma find_from_spec:
  "(find_from p a xs k = - 1 \<and> (\<forall>j<length xs. \<not> p (xs ! j) (k + int j) a)) \<or>
   (\<exists>j<length xs. find_from p a xs k = k + int j \<and> p (xs ! j) (k + int j) a
        \<and> (\<forall>j'<j. \<not> p (xs ! j') (k + int j') a))"
proof (induction xs arbitrary: k)
  case Nil
  show ?case by simp
next
  case (Cons x xs)
  show ?case
  proof (cases "p x k a")
    case True
    then show ?thesis by (intro disjI2 exI[of _ 0]) simp
  next
    case False
    from Cons.IH[of "k + 1"] show ?thesis
    proof
      assume h: "find_from p a xs (k + 1) = - 1 \<and> (\<forall>j<length xs. \<not> p (xs ! j) (k + 1 + int j) a)"
      have "\<forall>j<length (x # xs). \<not> p ((x # xs) ! j) (k + int j) a"
      proof (intro allI impI)
        fix j assume "j < length (x # xs)"
        then show "\<not> p ((x # xs) ! j) (k + int j) a"
          using False h by (cases j) (auto simp: algebra_simps)
      qed
      with h False show ?thesis by simp
    next
      assume "\<exists>j<length xs. find_from p a xs (k + 1) = k + 1 + int j \<and> p (xs ! j) (k + 1 + int j) a
        \<and> (\<forall>j'<j. \<not> p (xs ! j') (k + 1 + int j') a)"
      then obtain j where j: "j < length xs" "find_from p a xs (k + 1) = k + 1 + int j"
        "p (xs ! j) (k + 1 + int j) a" "\<forall>j'<j. \<not> p (xs ! j') (k + 1 + int j') a" by blast
      have "\<forall>j'<Suc j. \<not> p ((x # xs) ! j') (k + int j') a"
      proof (intro allI impI)
        fix j' assume "j' < Suc j"
        then show "\<not> p ((x # xs) ! j') (k + int j') a"
          using False j(4) by (cases j') (auto simp: algebra_simps)
      qed
      with j False show ?thesis
        by (intro disjI2 exI[of _ "Suc j"]) (simp add: algebra_simps)
    qed
  qed
qed

lemma dropWhile_arr_value:
  "dropWhile_arr a (\<lambda>v i c. q v) =
     (if \<forall>x\<in>set a. q x then (if a = [] then [] else [last a]) else dropWhile q a)"
proof (cases "\<forall>x\<in>set a. q x")
  case True
  then have "array_findIndex a (negate (\<lambda>v i c. q v)) = - 1"
    by (simp add: array_findIndex_def negate_def find_from_value)
  then have "dropWhile_arr a (\<lambda>v i c. q v) = drop (length a - 1) a"
    by (cases a) (auto simp: dropWhile_arr_def array_slice_def rel_index_def Let_def max_def)
  also have "\<dots> = (if a = [] then [] else [last a])"
    by (cases a rule: rev_cases) auto
  finally show ?thesis using True by simp
next
  case False
  then have "array_findIndex a (negate (\<lambda>v i c. q v)) = int (length (takeWhile q a))"
    by (auto simp add: array_findIndex_def negate_def find_from_value)
  then have "dropWhile_arr a (\<lambda>v i c. q v) = drop (length (takeWhile q a)) a"
    by (simp add: dropWhile_arr_def array_slice_nonneg length_takeWhile_le)
  with False show ?thesis by (auto simp: dropWhile_eq_drop)
qed

lemma dropRightWhile_value:
  "dropRightWhile a (\<lambda>v i c. q v) =
     (if \<forall>x\<in>set a. q x then a else rev (dropWhile q (rev a)))"
proof (cases "\<forall>x\<in>set a. q x")
  case True
  then have "array_findIndex (rev (array_slice a None None)) (negate (\<lambda>v i c. q v)) = - 1"
    by (simp add: array_findIndex_def negate_def find_from_value array_slice_copy)
  then have "dropRightWhile a (\<lambda>v i c. q v) = a"
    by (auto simp: dropRightWhile_def array_slice_def rel_index_def Let_def)
  with True show ?thesis by simp
next
  case False
  let ?n = "length (takeWhile q (rev a))"
  have n: "?n \<le> length a" using length_takeWhile_le[of q "rev a"] by simp
  from False have "array_findIndex (rev (array_slice a None None)) (negate (\<lambda>v i c. q v)) = int ?n"
    by (auto simp add: array_findIndex_def negate_def find_from_value array_slice_copy)
  then have "dropRightWhile a (\<lambda>v i c. q v) = take (length a - ?n) a"
    using n by (simp add: dropRightWhile_def array_slice_nonneg nat_diff_distrib)
  also have "\<dots> = rev (drop ?n (rev a))"
    by (simp add: rev_drop rev_take)
  finally show ?thesis using False by (auto simp: dropWhile_eq_drop)
qed

lemma findIndex_value:
  assumes "0 \<le> s"
  shows "findIndex a (\<lambda>v i c. q v) (Some s) =
     (if \<forall>x\<in>set (drop (nat s) a). \<not> q x then - 1
      else s + int (length (takeWhile (\<lambda>x. \<not> q x) (drop (nat s) a))))"
  using assms by (simp add: findIndex_def array_findIndex_def array_slice_from find_from_value)

lemma findIndex_on_slice:
  assumes "0 \<le> s"
  shows "(findIndex a p (Some s) = - 1
            \<and> (\<forall>j<length (drop (nat s) a). \<not> p (drop (nat s) a ! j) (int j) (drop (nat s) a)))
         \<or> (\<exists>j<length (drop (nat s) a). findIndex a p (Some s) = s + int j
            \<and> p (drop (nat s) a ! j) (int j) (drop (nat s) a)
            \<and> (\<forall>j'<j. \<not> p (drop (nat s) a ! j') (int j') (drop (nat s) a)))"
proof -
  define sl where "sl = drop (nat s) a"
  have f: "findIndex a p (Some s) =
      (if find_from p sl sl 0 = - 1 then - 1 else s + find_from p sl sl 0)"
    using assms by (simp add: findIndex_def array_findIndex_def array_slice_from sl_def Let_def)
  from find_from_spec [of p sl sl 0] show ?thesis
  proof
    assume "find_from p sl sl 0 = - 1 \<and> (\<forall>j<length sl. \<not> p (sl ! j) (0 + int j) sl)"
    then show ?thesis using f by (simp add: sl_def)
  next
    assume "\<exists>j<length sl. find_from p sl sl 0 = 0 + int j \<and> p (sl ! j) (0 + int j) sl
        \<and> (\<forall>j'<j. \<not> p (sl ! j') (0 + int j') sl)"
    then obtain j where j: "j < length sl" "find_from p sl sl 0 = int j" "p (sl ! j) (int j) sl"
        "\<forall>j'<j. \<not> p (sl ! j') (int j') sl" by auto
    from j(2) f have "findIndex a p (Some s) = s + int j" by simp
    with j show ?thesis unfolding sl_def [symmetric] by blast
  qed
qed

lemma pop_Cons: "array s = x # xs \<Longrightarrow> pop s = (Val x, s\<lparr>array := xs\<rparr>)"
  by (simp add: pop_def array_get_def array_slice_tail)

lemma pop_Nil: "array s = [] \<Longrightarrow> pop s = (Undefined, s)"
  by (simp add: pop_def array_get_def array_slice_tail)

lemma size_of_step:
  "size_of (step x s) =
     (case x of Push v \<Rightarrow> size_of s + 1
      | Pop \<Rightarrow> (if 0 < size_of s then size_of s - 1 else size_of s)
      | _ \<Rightarrow> size_of s)"
  by (cases x; cases "array s") (simp_all add: size_of_def push_def pop_Cons pop_Nil)

lemma size_of_run: "size_of (run ops s) = held ops (size_of s)"
proof (induction ops arbitrary: s)
  case Nil
  show ?case by simp
next
  case (Cons x xs)
  have "size_of (run (x # xs) s) = held xs (size_of (step x s))"
    by (simp add: Cons.IH)
  also have "\<dots> = held (x # xs) (size_of s)"
    by (cases x) (simp_all add: size_of_step del: step.simps)
  finally show ?case .
qed

section \<open>Claims about the stack\<close>

text \<open>
  C4. \<open>pop\<close> on a non-empty stack returns the most recently pushed element that has not
  been popped and makes \<open>size\<close> one smaller; \<open>pop\<close> on an empty stack returns the
  no-value result \<^verbatim>\<open>undefined\<close>, raises nothing and leaves the stack, and so its
  size, as it was. After \<open>push(1)\<close>, \<open>push(2)\<close>, \<open>push(3)\<close> the pops return 3, 2, 1
  and then the no-value result, with size 0.
\<close>

theorem pop_contract:
  "pop (push v s) = (Val v, s)
   \<and> (array s \<noteq> [] \<longrightarrow>
        fst (pop s) = Val (hd (array s)) \<and> size_of (snd (pop s)) = size_of s - 1)
   \<and> (array s = [] \<longrightarrow> pop s = (Undefined, s) \<and> size_of (snd (pop s)) = 0)
   \<and> (let s3 = push (3::int) (push 2 (push 1 new_Stack));
          (r1, s2) = pop s3; (r2, s1) = pop s2; (r3, s0) = pop s1; (r4, s') = pop s0
      in r1 = Val 3 \<and> size_of s2 = 2 \<and> r2 = Val 2 \<and> r3 = Val 1
         \<and> r4 = Undefined \<and> size_of s' = 0 \<and> s' = s0)"
proof -
  have a: "pop (push v s) = (Val v, s)"
    by (simp add: pop_Cons [where x = v and xs = "array s"] push_def)
  have b: "array s \<noteq> [] \<longrightarrow>
        fst (pop s) = Val (hd (array s)) \<and> size_of (snd (pop s)) = size_of s - 1"
    by (cases "array s") (simp_all add: pop_Cons size_of_def)
  have c: "array s = [] \<longrightarrow> pop s = (Undefined, s) \<and> size_of (snd (pop s)) = 0"
    by (simp add: pop_Nil size_of_def)
  have p: "\<And>(x::int) xs. pop \<lparr>array = x # xs\<rparr> = (Val x, \<lparr>array = xs\<rparr>)"
    by (simp add: pop_Cons)
  have q: "pop \<lparr>array = ([]::int list)\<rparr> = (Undefined, \<lparr>array = []\<rparr>)"
    by (simp add: pop_Nil)
  have d: "(let s3 = push (3::int) (push 2 (push 1 new_Stack));
          (r1, s2) = pop s3; (r2, s1) = pop s2; (r3, s0) = pop s1; (r4, s') = pop s0
      in r1 = Val 3 \<and> size_of s2 = 2 \<and> r2 = Val 2 \<and> r3 = Val 1
         \<and> r4 = Undefined \<and> size_of s' = 0 \<and> s' = s0)"
    by (simp add: push_def new_Stack_def p q size_of_def)
  from a b c d show ?thesis by blast
qed

theorem pop_contract_witness:
  "array (push (7::int) new_Stack) \<noteq> []
   \<and> fst (pop (push (7::int) new_Stack)) = Val 7
   \<and> size_of (snd (pop (push (7::int) new_Stack))) = 0
   \<and> array (new_Stack :: int Stack) = []
   \<and> pop (new_Stack :: int Stack) = (Undefined, new_Stack)"
  using pop_contract [of 7 "push (7::int) new_Stack"] pop_contract [of 7 "new_Stack :: int Stack"]
  by (simp add: push_def new_Stack_def size_of_def)

text \<open>
  C8. Through every sequence of \<open>push\<close>, \<open>pop\<close>, \<open>peek\<close> and \<open>toArray\<close> calls, \<open>size\<close>
  is the number of elements held, that is the pushes minus the pops that found an
  element: \<open>push\<close> adds exactly one, \<open>pop\<close> on a non-empty stack takes exactly one
  away, \<open>peek\<close> and \<open>toArray\<close> change nothing.
\<close>

theorem size_counts_held:
  "size_of (run ops new_Stack) = held ops 0
   \<and> size_of (run ops s) = held ops (size_of s)
   \<and> size_of s = int (length (toArray s))
   \<and> size_of (push v s) = size_of s + 1
   \<and> (0 < size_of s \<longrightarrow> size_of (snd (pop s)) = size_of s - 1)
   \<and> step Peek s = s \<and> step ToArray s = s"
proof -
  have "size_of (new_Stack :: 'a Stack) = 0"
    by (simp add: size_of_def new_Stack_def)
  then have a: "size_of (run ops new_Stack) = held ops 0"
    by (simp add: size_of_run)
  have b: "size_of (push v s) = size_of s + 1"
    using size_of_step [of "Push v" s] by simp
  have c: "0 < size_of s \<longrightarrow> size_of (snd (pop s)) = size_of s - 1"
    using size_of_step [of Pop s] by simp
  have d: "size_of s = int (length (toArray s))"
    by (simp add: size_of_def toArray_def)
  from a b c d show ?thesis
    by (simp add: size_of_run)
qed

theorem size_counts_held_witness:
  "0 < size_of (push (5::int) new_Stack)
   \<and> size_of (snd (pop (push (5::int) new_Stack))) = size_of (push (5::int) new_Stack) - 1
   \<and> size_of (run [Push (1::int), Pop, Pop, Push 2, Peek, Push 3, ToArray] new_Stack) = 2"
  using size_counts_held [of "[Push (1::int), Pop, Pop, Push 2, Peek, Push 3, ToArray]"
      "push (5::int) new_Stack" 5]
  by (simp add: push_def new_Stack_def size_of_def)

text \<open>
  C9. The two results for an empty stack differ: \<open>pop\<close> returns \<^verbatim>\<open>undefined\<close>, the
  value of a read outside the backing array, and \<open>peek\<close> returns the literal
  \<^verbatim>\<open>null\<close>.
\<close>

theorem empty_pop_peek_differ:
  "fst (pop (new_Stack :: 'a Stack)) = Undefined
   \<and> fst (pop (new_Stack :: 'a Stack)) = array_get (array (new_Stack :: 'a Stack)) 0
   \<and> peek (new_Stack :: 'a Stack) = Null
   \<and> fst (pop (new_Stack :: 'a Stack)) \<noteq> peek (new_Stack :: 'a Stack)"
  by (simp add: pop_def peek_def new_Stack_def array_get_def)

section \<open>Claims about the array functions\<close>

text \<open>
  C10, as the spec states it: for every array and every index \<open>n\<close> outside
  \<open>[0, length)\<close>, \<open>nth\<close> returns \<^verbatim>\<open>undefined\<close>. \<open>nth\<close> is the property read
  \<^verbatim>\<open>array[n]\<close>, and an array can own a property named by such an \<open>n\<close>: the array
  that \<open>fill([4, 6], 0, -2, 1)\<close> returns has length 2 and the property \<open>-1\<close> with
  value 0, and \<open>nth\<close> of it at \<open>-1\<close> is 0.
\<close>

theorem nth_own_property_counterexample:
  "length (cells (fill_object [dense [4, 6 :: int]] 0 0 (- 2) 1)) = 2
   \<and> \<not> (0 \<le> (- 1 :: int) \<and> (- 1 :: int) < 2)
   \<and> nth_arr (fill_object [dense [4, 6 :: int]] 0 0 (- 2) 1) (Some (- 1)) = Val 0
   \<and> nth_arr (fill_object [dense [4, 6 :: int]] 0 0 (- 2) 1) (Some (- 1)) \<noteq> Undefined"
  by (simp add: nth_arr_def array_read_def fill_object_def fill_def alloc_def dense_def
      array_slice_def fill_loop.simps array_put_def)

text \<open>
  C10, amended: \<open>nth\<close> has no failing path. For an index \<open>n\<close> outside \<open>[0, length)\<close>
  it returns the value of the array's own property named \<open>n\<close> when the array has one,
  and \<^verbatim>\<open>undefined\<close> otherwise; so it returns \<^verbatim>\<open>undefined\<close> there for every array
  without such a property, in particular for every dense array of elements. For \<open>n\<close>
  inside the range it returns the element at index \<open>n\<close> (\<^verbatim>\<open>undefined\<close> for an empty
  slot), and an omitted \<open>n\<close> is 0.
\<close>

theorem nth_property_read:
  "(n < 0 \<or> int (length (cells a)) \<le> n \<longrightarrow>
      nth_arr a (Some n) = (case props a n of None \<Rightarrow> Undefined | Some v \<Rightarrow> Val v))
   \<and> ((n < 0 \<or> int (length (cells a)) \<le> n) \<and> props a n = None \<longrightarrow>
      nth_arr a (Some n) = Undefined)
   \<and> (n < 0 \<or> int (length xs) \<le> n \<longrightarrow> nth_arr (dense xs) (Some n) = Undefined)
   \<and> (0 \<le> n \<and> n < int (length (cells a)) \<longrightarrow>
      nth_arr a (Some n) = (case cells a ! nat n of None \<Rightarrow> Undefined | Some v \<Rightarrow> Val v))
   \<and> (0 \<le> n \<and> n < int (length xs) \<longrightarrow> nth_arr (dense xs) (Some n) = Val (xs ! nat n))
   \<and> nth_arr a None = nth_arr a (Some 0)"
  by (auto simp: nth_arr_def array_read_def dense_def)

theorem nth_property_read_witness:
  "nth_arr (dense [1, 2, 3 :: int]) (Some 3) = Undefined
   \<and> nth_arr (dense [1, 2, 3 :: int]) (Some (- 1)) = Undefined
   \<and> nth_arr (dense [1, 2, 3 :: int]) (Some 2) = Val 3
   \<and> nth_arr (dense [1, 2, 3 :: int]) None = Val 1
   \<and> nth_arr \<lparr>cells = [Some 0, None, Some (6 :: int)], props = (\<lambda>_. None)(- 1 := Some 9)\<rparr>
        (Some (- 1)) = Val 9
   \<and> nth_arr \<lparr>cells = [Some 0, None, Some (6 :: int)], props = (\<lambda>_. None)(- 1 := Some 9)\<rparr>
        (Some 1) = Undefined
   \<and> nth_arr \<lparr>cells = [Some 0, None, Some (6 :: int)], props = (\<lambda>_. None)(- 1 := Some 9)\<rparr>
        (Some (- 2)) = Undefined"
  using nth_property_read [of 3 "dense [1, 2, 3 :: int]" "[1, 2, 3 :: int]"]
    nth_property_read [of "- 1" "dense [1, 2, 3 :: int]" "[1, 2, 3 :: int]"]
    nth_property_read [of 2 "dense [1, 2, 3 :: int]" "[1, 2, 3 :: int]"]
    nth_property_read [of 0 "dense [1, 2, 3 :: int]" "[1, 2, 3 :: int]"]
    nth_property_read [of "- 1"
      "\<lparr>cells = [Some 0, None, Some (6 :: int)], props = (\<lambda>_. None)(- 1 := Some 9)\<rparr>" "[]"]
    nth_property_read [of 1
      "\<lparr>cells = [Some 0, None, Some (6 :: int)], props = (\<lambda>_. None)(- 1 := Some 9)\<rparr>" "[]"]
    nth_property_read [of "- 2"
      "\<lparr>cells = [Some 0, None, Some (6 :: int)], props = (\<lambda>_. None)(- 1 := Some 9)\<rparr>" "[]"]
  by (simp add: dense_def nth_arr_def array_read_def)

text \<open>
  C2. The claim: for a count of at least the length, \<open>drop\<close> and \<open>dropRight\<close> both return
  the empty sequence. \<open>drop\<close> does (\<open>drop_arr_eq\<close>); \<open>dropRight\<close> passes the negative
  end \<open>length - count\<close> to \<open>slice\<close>, which counts it from the end: with four elements
  and count 5 it returns the first three.
\<close>

theorem dropRight_count_beyond_length:
  "dropRight [1, 2, 3, 4 :: int] (Some 5) = [1, 2, 3]
   \<and> drop_arr [1, 2, 3, 4 :: int] (Some 5) = []"
  by (simp add: dropRight_eq drop_arr_eq)

text \<open>
  C1. The claim: if the predicate holds for every element, \<open>dropWhile\<close> and
  \<open>dropRightWhile\<close> return the empty sequence. Then \<open>findIndex\<close> returns \<open>-1\<close>, which
  neither function tests: \<open>dropWhile\<close> slices from \<open>-1\<close> and returns the last element,
  \<open>dropRightWhile\<close> slices up to \<open>length + 1\<close> and returns the whole sequence.
\<close>

theorem dropWhile_all_true:
  "dropWhile_arr [1, 2, 3 :: int] (\<lambda>v i c. True) = [3]
   \<and> dropRightWhile [1, 2, 3 :: int] (\<lambda>v i c. True) = [1, 2, 3]"
  by (simp add: dropWhile_arr_value dropRightWhile_value)

text \<open>
  C3. The claim: \<open>findIndex\<close> returns the lowest index \<open>i \<ge> startIndex\<close> with
  \<open>p(seq[i], i, seq)\<close>, and \<open>-1\<close> exactly when there is none. The predicate is called
  on the slice, so it sees the index \<open>i - startIndex\<close> and the sliced array. With the
  predicate "the index is 0" and start 1 no index from 1 on qualifies, and the function
  returns 1; with "the index is 1" and start 1 index 1 qualifies, and the function
  returns 2. \<open>findLastIndex\<close> calls the predicate with the array's own index and
  finds index 1.
\<close>

theorem findIndex_slice_relative_index:
  "findIndex [4, 6, 8 :: int] (\<lambda>v i c. i = 0) (Some 1) = 1
   \<and> \<not> (\<lambda>v i c. i = 0) ([4, 6, 8 :: int] ! 1) (1 :: int) [4, 6, 8 :: int]
   \<and> \<not> (\<lambda>v i c. i = 0) ([4, 6, 8 :: int] ! 2) (2 :: int) [4, 6, 8 :: int]
   \<and> findIndex [4, 6, 8 :: int] (\<lambda>v i c. i = 1) (Some 1) = 2
   \<and> findLastIndex [4, 6, 8 :: int] (\<lambda>v i c. i = 1) (Some 2) = 1"
  by (simp add: findIndex_def array_findIndex_def array_slice_from findLastIndex_def)

subsection \<open>\<open>chunk\<close>\<close>

lemma array_map_filled:
  "array_map f (array_fill slots v) = map (\<lambda>i. Some (f v (int i))) [0..<length slots]"
  by (rule nth_equalityI) (simp_all add: array_map_def array_fill_def)

lemma concat_takes:
  "concat (map (\<lambda>i. take m (drop (i * m) xs)) [0..<k]) = take (k * m) xs"
proof (induction k)
  case 0
  show ?case by simp
next
  case (Suc k)
  have "take (Suc k * m) xs = take (k * m) xs @ take m (drop (k * m) xs)"
    using take_add [of "k * m" m xs] by (simp add: add.commute)
  with Suc show ?case by simp
qed

lemma ceil_bounds:
  assumes "1 \<le> n" "0 \<le> l"
  shows "(\<lceil>real_of_int l / real_of_int n\<rceil> - 1) * n < l \<and> l \<le> \<lceil>real_of_int l / real_of_int n\<rceil> * n"
proof -
  let ?c = "\<lceil>real_of_int l / real_of_int n\<rceil>"
  have n: "0 < real_of_int n" using assms by simp
  have "real_of_int l \<le> of_int ?c * real_of_int n"
    using ceiling_divide_upper [OF n] by blast
  then have u: "l \<le> ?c * n"
    by (metis of_int_le_iff of_int_mult)
  have "(of_int ?c - 1) * real_of_int n < real_of_int l"
    using ceiling_divide_lower [OF n] by blast
  then have "real_of_int ((?c - 1) * n) < real_of_int l"
    by simp
  then have "(?c - 1) * n < l"
    by (simp only: of_int_less_iff)
  with u show ?thesis by simp
qed

lemma ceil_range:
  assumes "1 \<le> n" "0 \<le> l"
  shows "0 \<le> \<lceil>real_of_int l / real_of_int n\<rceil> \<and> \<lceil>real_of_int l / real_of_int n\<rceil> \<le> l"
proof -
  let ?c = "\<lceil>real_of_int l / real_of_int n\<rceil>"
  from ceil_bounds [OF assms] have b: "(?c - 1) * n < l" "l \<le> ?c * n" by simp_all
  have "0 \<le> ?c"
  proof (rule ccontr)
    assume "\<not> 0 \<le> ?c"
    then have "?c \<le> - 1" by linarith
    then have "?c * n \<le> (- 1) * n" using assms(1) by (intro mult_right_mono) simp_all
    with b(2) assms show False by simp
  qed
  moreover have "?c \<le> l"
  proof (rule ccontr)
    assume "\<not> ?c \<le> l"
    then have "l \<le> ?c - 1" by linarith
    moreover have "0 \<le> ?c - 1" using calculation assms(2) by linarith
    then have "(?c - 1) * 1 \<le> (?c - 1) * n" using assms(1) by (intro mult_left_mono) simp_all
    ultimately show False using b(1) by simp
  qed
  ultimately show ?thesis by simp
qed

lemma chunk_groups:
  assumes "1 \<le> n" "length xs < 4294967296"
  shows "chunk xs (Some n) =
     Inr (map Some (map (\<lambda>i. take (nat n) (drop (i * nat n) xs))
                     [0..<nat \<lceil>real (length xs) / real_of_int n\<rceil>]))"
proof -
  define c where "c = \<lceil>real_of_int (int (length xs)) / real_of_int n\<rceil>"
  from ceil_range [OF assms(1), of "int (length xs)"]
  have c: "0 \<le> c" "c \<le> int (length xs)" by (simp_all add: c_def)
  then have "c < 4294967296" using assms(2) by linarith
  with c have A: "Array_n c = Inr (replicate (nat c) None)"
    by (simp add: Array_n_def)
  have sl: "array_slice xs (Some (int i * n)) (Some (int i * n + n))
              = take (nat n) (drop (i * nat n) xs)" for i
    using assms(1) by (simp add: array_slice_nonneg nat_mult_distrib)
  from assms(1) have "n \<noteq> 0" by simp
  then have "chunk xs (Some n) =
     Inr (map Some (map (\<lambda>i. take (nat n) (drop (i * nat n) xs)) [0..<nat c]))"
    unfolding chunk_def Let_def option.case c_def [symmetric]
    by (simp add: A array_map_filled sl)
  then show ?thesis by (simp add: c_def)
qed

text \<open>
  C7. For every sequence and every integer \<open>n \<ge> 1\<close>, \<open>chunk\<close> returns groups whose
  concatenation, in order, is the sequence; there are \<open>ceil(length / n)\<close> of them; every
  group but possibly the last has length \<open>n\<close>, and the last group is not empty when
  the sequence is not. (An array of the language has fewer than \<open>2^32\<close> elements.)
\<close>

theorem chunk_flatten:
  assumes "1 \<le> n" "length seq < 4294967296"
  shows "\<exists>gs. chunk seq (Some n) = Inr (map Some gs) \<and> concat gs = seq
           \<and> int (length gs) = \<lceil>real (length seq) / real_of_int n\<rceil>
           \<and> (\<forall>i. Suc i < length gs \<longrightarrow> length (gs ! i) = nat n)
           \<and> (seq \<noteq> [] \<longrightarrow> gs \<noteq> [] \<and> last gs \<noteq> [])"
proof -
  define c where "c = \<lceil>real_of_int (int (length seq)) / real_of_int n\<rceil>"
  define k where "k = nat c"
  define m where "m = nat n"
  define gs where "gs = map (\<lambda>i. take m (drop (i * m) seq)) [0..<k]"
  from ceil_range [OF assms(1), of "int (length seq)"]
  have c: "0 \<le> c" "c \<le> int (length seq)" by (simp_all add: c_def)
  from ceil_bounds [OF assms(1), of "int (length seq)"]
  have b: "(c - 1) * n < int (length seq)" "int (length seq) \<le> c * n"
    by (simp_all add: c_def)
  have kc: "int k = c" using c by (simp add: k_def)
  have mn: "int m = n" "0 < m" using assms(1) by (simp_all add: m_def)
  have up: "length seq \<le> k * m"
  proof -
    have "int (k * m) = c * n" using kc mn by simp
    with b(2) show ?thesis by linarith
  qed
  have low: "j < k \<Longrightarrow> j * m < length seq" for j
  proof -
    assume "j < k"
    then have "int j \<le> c - 1" using kc by linarith
    then have "int j * n \<le> (c - 1) * n"
      using assms(1) by (intro mult_right_mono) simp_all
    with b(1) have "int j * n < int (length seq)" by simp
    moreover have "int (j * m) = int j * n" using mn by simp
    ultimately show ?thesis by linarith
  qed
  have 1: "chunk seq (Some n) = Inr (map Some gs)"
    using chunk_groups [OF assms] by (simp add: gs_def k_def m_def c_def)
  have 2: "concat gs = seq"
    using up by (simp add: gs_def concat_takes)
  have 3: "int (length gs) = \<lceil>real (length seq) / real_of_int n\<rceil>"
    using kc by (simp add: gs_def c_def)
  have 4: "\<forall>i. Suc i < length gs \<longrightarrow> length (gs ! i) = nat n"
  proof (intro allI impI)
    fix i assume i: "Suc i < length gs"
    then have "Suc i * m < length seq" using low [of "Suc i"] by (simp add: gs_def)
    then have "m \<le> length seq - i * m" by simp
    with i show "length (gs ! i) = nat n" by (simp add: gs_def min_def m_def)
  qed
  have 5: "seq \<noteq> [] \<longrightarrow> gs \<noteq> [] \<and> last gs \<noteq> []"
  proof
    assume ne: "seq \<noteq> []"
    then have k: "0 < k" using up by (cases k) auto
    then have "last gs = take m (drop ((k - 1) * m) seq)"
      by (simp add: gs_def last_map last_upt)
    moreover have "(k - 1) * m < length seq" using low [of "k - 1"] k by simp
    ultimately show "gs \<noteq> [] \<and> last gs \<noteq> []"
      using k mn(2) by (simp add: gs_def)
  qed
  from 1 2 3 4 5 show ?thesis by blast
qed

theorem chunk_flatten_witness:
  "(1::int) \<le> 3 \<and> length ''abcd'' < 4294967296
   \<and> (\<exists>gs. chunk ''abcd'' (Some 3) = Inr (map Some gs) \<and> concat gs = ''abcd''
          \<and> length gs = 2 \<and> (\<forall>i. Suc i < length gs \<longrightarrow> length (gs ! i) = 3)
          \<and> (''abcd'' \<noteq> [] \<and> gs \<noteq> [] \<and> last gs \<noteq> []))"
  using chunk_flatten [of 3 "''abcd''"] by simp

subsection \<open>\<open>fill\<close>\<close>

declare fill_loop.simps [simp del]

lemma cells_array_put_neg: "i < 0 \<Longrightarrow> cells (array_put a i v) = cells a"
  by (simp add: array_put_def)

lemma length_cells_array_put:
  "0 \<le> i \<Longrightarrow> i < 4294967295 \<Longrightarrow>
     length (cells (array_put a i v)) = max (length (cells a)) (nat i + 1)"
  by (simp add: array_put_def Let_def)

lemma nth_cells_array_put:
  "0 \<le> i \<Longrightarrow> i < 4294967295 \<Longrightarrow> j < max (length (cells a)) (nat i + 1) \<Longrightarrow>
     cells (array_put a i v) ! j =
       (if j = nat i then Some v else if j < length (cells a) then cells a ! j else None)"
  by (auto simp: array_put_def Let_def nth_append nth_Cons')

lemma fill_loop_frame:
  "length (fill_loop h r v i e) = length h
   \<and> (\<forall>a. a \<noteq> r \<longrightarrow> fill_loop h r v i e ! a = h ! a)"
proof (induction h r v i e rule: fill_loop.induct)
  case (1 h r v i e)
  show ?case
  proof (cases "i < e")
    case True
    with 1 show ?thesis by (subst (1 2) fill_loop.simps) simp
  next
    case False
    then show ?thesis by (subst (1 2) fill_loop.simps) simp
  qed
qed

lemma fill_loop_cells:
  "r < length h \<Longrightarrow> e \<le> 4294967295 \<Longrightarrow>
     length (cells (fill_loop h r v i e ! r)) =
       (if i < e then max (length (cells (h ! r))) (nat e) else length (cells (h ! r)))
     \<and> (\<forall>j < length (cells (fill_loop h r v i e ! r)).
          cells (fill_loop h r v i e ! r) ! j =
            (if max i 0 \<le> int j \<and> int j < e then Some v
             else if j < length (cells (h ! r)) then cells (h ! r) ! j else None))"
proof (induction h r v i e rule: fill_loop.induct)
  case (1 h r v i e)
  show ?case
  proof (cases "i < e")
    case False
    then show ?thesis by (subst (1 2 3) fill_loop.simps) auto
  next
    case lt: True
    define h1 where "h1 = h[r := array_put (h ! r) i v]"
    define cs where "cs = cells (h ! r)"
    define cs1 where "cs1 = cells (h1 ! r)"
    define cs' where "cs' = cells (fill_loop h1 r v (i + 1) e ! r)"
    have unfold: "fill_loop h r v i e = fill_loop h1 r v (i + 1) e"
      using lt by (subst fill_loop.simps) (simp add: h1_def)
    have r1: "r < length h1" using "1.prems" by (simp add: h1_def)
    have at: "h1 ! r = array_put (h ! r) i v" using "1.prems" by (simp add: h1_def)
    from "1.IH" [OF lt, folded h1_def, OF r1 "1.prems"(2)]
    have len: "length cs' = (if i + 1 < e then max (length cs1) (nat e) else length cs1)"
      and nth: "\<And>j. j < length cs' \<Longrightarrow> cs' ! j =
            (if max (i + 1) 0 \<le> int j \<and> int j < e then Some v
             else if j < length cs1 then cs1 ! j else None)"
      by (simp_all add: cs'_def cs1_def)
    show ?thesis
    proof (cases "i < 0")
      case neg: True
      then have eq: "cs1 = cs" by (simp add: cs1_def cs_def at cells_array_put_neg)
      have L: "length cs' = max (length cs) (nat e)"
        using len neg lt by (auto simp: eq)
      have N: "cs' ! j = (if max i 0 \<le> int j \<and> int j < e then Some v
             else if j < length cs then cs ! j else None)" if "j < length cs'" for j
        using nth [OF that] neg by (simp add: eq)
      from L N lt show ?thesis
        unfolding unfold cs'_def [symmetric] cs_def [symmetric] by simp
    next
      case nonneg: False
      then have i: "0 \<le> i" "i < 4294967295" using lt "1.prems"(2) by simp_all
      have l1: "length cs1 = max (length cs) (nat i + 1)"
        using length_cells_array_put [OF i] by (simp add: cs1_def cs_def at)
      have n1: "cs1 ! j = (if j = nat i then Some v else if j < length cs then cs ! j else None)"
        if "j < max (length cs) (nat i + 1)" for j
        using nth_cells_array_put [OF i, of j "h ! r" v] that by (simp add: cs1_def cs_def at)
      have L: "length cs' = max (length cs) (nat e)"
        using len l1 i lt by (auto simp: max_def)
      have N: "cs' ! j = (if max i 0 \<le> int j \<and> int j < e then Some v
             else if j < length cs then cs ! j else None)" if "j < length cs'" for j
      proof (cases "j < length cs1")
        case True
        then show ?thesis using nth [OF that] n1 [of j] l1 i lt by (auto simp: max_def)
      next
        case False
        then show ?thesis using nth [OF that] l1 i lt by (auto simp: max_def split: if_splits)
      qed
      from L N lt show ?thesis
        unfolding unfold cs'_def [symmetric] cs_def [symmetric] by simp
    qed
  qed
qed

lemma fill_frame:
  "fst (fill h c v s e) = length h
   \<and> length (snd (fill h c v s e)) = length h + 1
   \<and> (\<forall>a < length h. snd (fill h c v s e) ! a = h ! a)"
  using fill_loop_frame [of "h @ [\<lparr>cells = cells (h ! c), props = (\<lambda>_. None)\<rparr>]" "length h" v s e]
  by (auto simp: fill_def alloc_def array_slice_copy nth_append)

lemma fill_result_cells:
  assumes "e \<le> 4294967295"
  shows "length (fill_result h c v s e) =
       (if s < e then max (length (cells (h ! c))) (nat e) else length (cells (h ! c)))
     \<and> (\<forall>j < length (fill_result h c v s e).
          fill_result h c v s e ! j =
            (if max s 0 \<le> int j \<and> int j < e then Some v
             else if j < length (cells (h ! c)) then cells (h ! c) ! j else None))"
  using fill_loop_cells [of "length h" "h @ [\<lparr>cells = cells (h ! c), props = (\<lambda>_. None)\<rparr>]" e v s] assms
  by (auto simp: fill_result_def fill_def alloc_def array_slice_copy)

text \<open>
  C6. For in-bounds indices \<open>start \<le> end\<close>, \<open>fill\<close> returns a new array, equal to the
  input with the positions \<open>[start, end)\<close> replaced by the value, and the caller's array
  (like every array that existed before the call) is left as it was. In particular
  \<open>fill([4,6,8,10], "*", 1, 3)\<close> returns \<open>[4,"*","*",10]\<close> and \<open>[4,6,8,10]\<close> is
  untouched. (An array of the language has at most \<open>2^32 - 1\<close> elements.)
\<close>

theorem fill_in_bounds:
  assumes "c < length h" and "cells (h ! c) = map Some seq"
    and "length seq \<le> 4294967295"
    and "0 \<le> s" and "s \<le> e" and "e \<le> int (length seq)"
  shows "fill_result h c v s e =
           map Some (take (nat s) seq @ replicate (nat (e - s)) v @ drop (nat e) seq)
         \<and> fst (fill h c v s e) = length h
         \<and> fst (fill h c v s e) \<noteq> c
         \<and> snd (fill h c v s e) ! c = h ! c
         \<and> (\<forall>a < length h. snd (fill h c v s e) ! a = h ! a)"
proof -
  have e: "e \<le> 4294967295" using assms(3,6) by linarith
  note R = fill_result_cells [OF e, of h c v s, unfolded assms(2)]
  have len: "length (fill_result h c v s e) = length seq"
    using R assms(4-6) by (auto simp: max_def)
  have "fill_result h c v s e =
           map Some (take (nat s) seq @ replicate (nat (e - s)) v @ drop (nat e) seq)"
  proof (rule nth_equalityI)
    show "length (fill_result h c v s e) =
      length (map Some (take (nat s) seq @ replicate (nat (e - s)) v @ drop (nat e) seq))"
      using len assms(4-6) by (simp add: min_def) linarith
  next
    fix j assume j: "j < length (fill_result h c v s e)"
    then have jl: "j < length seq" using len by simp
    from R j have "fill_result h c v s e ! j =
        (if max s 0 \<le> int j \<and> int j < e then Some v else Some (seq ! j))"
      using jl by simp
    moreover have "map Some (take (nat s) seq @ replicate (nat (e - s)) v @ drop (nat e) seq) ! j =
        (if max s 0 \<le> int j \<and> int j < e then Some v else Some (seq ! j))"
    proof -
      have lt: "length (take (nat s) seq @ replicate (nat (e - s)) v @ drop (nat e) seq) = length seq"
        using assms(4-6) by (simp add: min_def) linarith
      consider "int j < s" | "s \<le> int j" "int j < e" | "e \<le> int j" by linarith
      then have "(take (nat s) seq @ replicate (nat (e - s)) v @ drop (nat e) seq) ! j =
        (if max s 0 \<le> int j \<and> int j < e then v else seq ! j)"
      proof cases
        case 1
        then have "j < nat s" "nat s \<le> length seq" using assms(4-6) by linarith+
        then show ?thesis using 1 by (simp add: nth_append max_def)
      next
        case 2
        then have "\<not> j < nat s" "j - nat s < nat (e - s)" using assms(4-6) by linarith+
        then show ?thesis using 2 assms(4-6) jl by (simp add: nth_append min_def max_def)
      next
        case 3
        then have a: "\<not> j < nat s" "\<not> j - nat s < nat (e - s)" using assms(4-6) by linarith+
        have b: "nat e + (j - (nat s + nat (e - s))) = j" using 3 assms(4-6) by linarith
        show ?thesis using 3 a assms(4-6) jl by (simp add: nth_append min_def max_def b)
      qed
      moreover have "map Some (take (nat s) seq @ replicate (nat (e - s)) v @ drop (nat e) seq) ! j
          = Some ((take (nat s) seq @ replicate (nat (e - s)) v @ drop (nat e) seq) ! j)"
        by (rule nth_map) (simp only: lt jl)
      ultimately show ?thesis by simp
    qed
    ultimately show "fill_result h c v s e ! j =
        map Some (take (nat s) seq @ replicate (nat (e - s)) v @ drop (nat e) seq) ! j"
      by simp
  qed
  then show ?thesis
    using fill_frame [of h c v s e] assms(1) by simp
qed

theorem fill_in_bounds_witness:
  "(0::nat) < length [dense [Inl 4, Inl 6, Inl 8, Inl (10::int)]]
   \<and> fill_result [dense [Inl 4, Inl 6, Inl 8, Inl (10::int)]] 0 (Inr ''*'') 1 3
       = [Some (Inl 4), Some (Inr ''*''), Some (Inr ''*''), Some (Inl 10)]
   \<and> snd (fill [dense [Inl 4, Inl 6, Inl 8, Inl (10::int)]] 0 (Inr ''*'') 1 3) ! 0
       = dense [Inl 4, Inl 6, Inl 8, Inl 10]
   \<and> fst (fill [dense [Inl 4, Inl 6, Inl 8, Inl (10::int)]] 0 (Inr ''*'') 1 3) = 1"
  using fill_in_bounds [of 0 "[dense [Inl 4, Inl 6, Inl 8, Inl (10::int)]]"
      "[Inl 4, Inl 6, Inl 8, Inl (10::int)]" 1 3 "Inr ''*''"]
  by (simp add: dense_def numeral_2_eq_2)

text \<open>
  C5, as the spec states it: for indices outside the bounds, \<open>fill\<close> either behaves as
  with the indices clamped to \<open>[0, length]\<close> or rejects the call, and never returns
  anything else, such as a sequence longer than the input. \<open>fill\<close> has no rejecting
  path, and with the input \<open>[4, 6]\<close>, start 0 and end 3 it returns three elements,
  where the clamped call returns two.
\<close>

theorem fill_beyond_end_counterexample:
  "fill_result [dense [4, 6 :: int]] 0 0 0 3 = [Some 0, Some 0, Some 0]
   \<and> fill_result [dense [4, 6 :: int]] 0 0
        (clamp_index (int (length [4, 6 :: int])) 0) (clamp_index (int (length [4, 6 :: int])) 3)
      = [Some 0, Some 0]
   \<and> length [4, 6 :: int] < length (fill_result [dense [4, 6 :: int]] 0 0 0 3)"
  by (simp add: fill_result_def fill_def alloc_def dense_def array_slice_copy fill_loop.simps
      array_put_def clamp_index_def)

lemma fill_loop_props:
  "r < length h \<Longrightarrow> e \<le> 4294967295 \<Longrightarrow>
     props (fill_loop h r v i e ! r) j =
       (if i \<le> j \<and> j < e \<and> j < 0 then Some v else props (h ! r) j)"
proof (induction h r v i e rule: fill_loop.induct)
  case (1 h r v i e)
  show ?case
  proof (cases "i < e")
    case False
    then show ?thesis by (subst fill_loop.simps) auto
  next
    case lt: True
    define h1 where "h1 = h[r := array_put (h ! r) i v]"
    have unfold: "fill_loop h r v i e = fill_loop h1 r v (i + 1) e"
      using lt by (subst fill_loop.simps) (simp add: h1_def)
    have r1: "r < length h1" using "1.prems" by (simp add: h1_def)
    have at: "props (h1 ! r) j = (if i < 0 \<and> j = i then Some v else props (h ! r) j)"
      using "1.prems" lt by (simp add: h1_def array_put_def Let_def)
    from "1.IH" [OF lt, folded h1_def, OF r1 "1.prems"(2)]
    have "props (fill_loop h1 r v (i + 1) e ! r) j =
       (if i + 1 \<le> j \<and> j < e \<and> j < 0 then Some v else props (h1 ! r) j)" .
    then show ?thesis
      unfolding unfold at using lt by auto
  qed
qed

lemma fill_object_props:
  assumes "e \<le> 4294967295"
  shows "props (fill_object h c v s e) j = (if s \<le> j \<and> j < e \<and> j < 0 then Some v else None)"
  using fill_loop_props [of "length h" "h @ [\<lparr>cells = cells (h ! c), props = (\<lambda>_. None)\<rparr>]" e v s j]
    assms
  by (simp add: fill_object_def fill_def alloc_def array_slice_copy)

lemma cells_fill_object: "cells (fill_object h c v s e) = fill_result h c v s e"
  by (simp add: fill_object_def fill_result_def)

lemma fill_object_eq_iff:
  assumes "cells (h ! c) = map Some seq" and "e \<le> 4294967295"
    and r: "fill_result h c v s e =
              fill_result h c v (clamp_index (int (length seq)) s) (clamp_index (int (length seq)) e)
            \<longleftrightarrow> e \<le> int (length seq) \<or> e \<le> s"
  shows "fill_object h c v s e =
              fill_object h c v (clamp_index (int (length seq)) s) (clamp_index (int (length seq)) e)
            \<longleftrightarrow> e \<le> s \<or> (0 \<le> s \<and> e \<le> int (length seq))"
proof -
  define cs where "cs = clamp_index (int (length seq)) s"
  define ce where "ce = clamp_index (int (length seq)) e"
  have ce: "ce \<le> 4294967295" using assms(2) by (simp add: ce_def clamp_index_def)
  have cs0: "0 \<le> cs" by (simp add: cs_def clamp_index_def)
  have pc: "props (fill_object h c v cs ce) = (\<lambda>_. None)"
  proof
    fix j show "props (fill_object h c v cs ce) j = None"
      using fill_object_props [OF ce, of h c v cs j] cs0 by auto
  qed
  have po: "props (fill_object h c v s e) = (\<lambda>_. None) \<longleftrightarrow> e \<le> s \<or> 0 \<le> s"
  proof
    assume a: "props (fill_object h c v s e) = (\<lambda>_. None)"
    show "e \<le> s \<or> 0 \<le> s"
    proof (rule ccontr)
      assume "\<not> (e \<le> s \<or> 0 \<le> s)"
      then have "props (fill_object h c v s e) s = Some v"
        using fill_object_props [OF assms(2), of h c v s s] by auto
      with a show False by simp
    qed
  next
    assume a: "e \<le> s \<or> 0 \<le> s"
    show "props (fill_object h c v s e) = (\<lambda>_. None)"
    proof
      fix j show "props (fill_object h c v s e) j = None"
        using fill_object_props [OF assms(2), of h c v s j] a by auto
    qed
  qed
  have "fill_object h c v s e = fill_object h c v cs ce \<longleftrightarrow>
      fill_result h c v s e = fill_result h c v cs ce
      \<and> props (fill_object h c v s e) = props (fill_object h c v cs ce)"
    by (auto simp: cells_fill_object [symmetric] intro: jsarray.equality)
  also have "\<dots> \<longleftrightarrow> (e \<le> int (length seq) \<or> e \<le> s) \<and> (e \<le> s \<or> 0 \<le> s)"
    using r pc po by (simp add: cs_def ce_def)
  also have "\<dots> \<longleftrightarrow> e \<le> s \<or> (0 \<le> s \<and> e \<le> int (length seq))"
    by auto
  finally show ?thesis by (simp add: cs_def ce_def)
qed

lemma fill_slots_out_of_bounds:
  assumes "cells (h ! c) = map Some seq" and "e \<le> 4294967295"
  shows "length (fill_result h c v s e) =
           (if s < e then max (length seq) (nat e) else length seq)
         \<and> (\<forall>j < length (fill_result h c v s e).
              fill_result h c v s e ! j =
                (if max s 0 \<le> int j \<and> int j < e then Some v
                 else if j < length seq then Some (seq ! j) else None))
         \<and> (fill_result h c v s e =
              fill_result h c v (clamp_index (int (length seq)) s) (clamp_index (int (length seq)) e)
            \<longleftrightarrow> e \<le> int (length seq) \<or> e \<le> s)"
proof -
  define l where "l = int (length seq)"
  define cs where "cs = clamp_index l s"
  define ce where "ce = clamp_index l e"
  define R where "R = fill_result h c v s e"
  define Rc where "Rc = fill_result h c v cs ce"
  have ce: "ce \<le> 4294967295" using assms(2) by (simp add: ce_def clamp_index_def)
  have bounds: "0 \<le> cs" "cs \<le> l" "0 \<le> ce" "ce \<le> l"
    by (simp_all add: cs_def ce_def clamp_index_def l_def)
  note A = fill_result_cells [OF assms(2), of h c v s, unfolded assms(1), folded R_def]
  note B = fill_result_cells [OF ce, of h c v cs, unfolded assms(1), folded Rc_def]
  have lenR: "length R = (if s < e then max (length seq) (nat e) else length seq)"
    using A by auto
  have nthR: "\<forall>j < length R. R ! j =
                (if max s 0 \<le> int j \<and> int j < e then Some v
                 else if j < length seq then Some (seq ! j) else None)"
  proof (intro allI impI)
    fix j assume "j < length R"
    with A have "R ! j = (if max s 0 \<le> int j \<and> int j < e then Some v
                 else if j < length (map Some seq) then map Some seq ! j else None)"
      by blast
    then show "R ! j = (if max s 0 \<le> int j \<and> int j < e then Some v
                 else if j < length seq then Some (seq ! j) else None)"
      by (cases "j < length seq") simp_all
  qed
  have lenRc: "length Rc = length seq"
    using B bounds by (auto simp: l_def max_def)
  have nthRc: "\<forall>j < length seq. Rc ! j =
                (if cs \<le> int j \<and> int j < ce then Some v else Some (seq ! j))"
  proof (intro allI impI)
    fix j assume j: "j < length seq"
    then have "j < length Rc" using lenRc by simp
    with B have "Rc ! j = (if max cs 0 \<le> int j \<and> int j < ce then Some v
                 else if j < length (map Some seq) then map Some seq ! j else None)"
      by blast
    moreover have "max cs 0 = cs" using bounds(1) by simp
    ultimately show "Rc ! j = (if cs \<le> int j \<and> int j < ce then Some v else Some (seq ! j))"
      using j by simp
  qed
  have "R = Rc \<longleftrightarrow> e \<le> l \<or> e \<le> s"
  proof
    assume eq: "R = Rc"
    show "e \<le> l \<or> e \<le> s"
    proof (rule ccontr)
      assume "\<not> (e \<le> l \<or> e \<le> s)"
      then have lt: "length seq < nat e" "s < e"
        by (simp_all add: l_def) linarith
      then have "length R = nat e"
        using lenR by (simp add: max_def)
      with lenRc eq lt show False by simp
    qed
  next
    assume h: "e \<le> l \<or> e \<le> s"
    then have len: "length R = length seq"
      using lenR by (auto simp: l_def max_def)
    show "R = Rc"
    proof (rule nth_equalityI)
      show "length R = length Rc" using len lenRc by simp
    next
      fix j assume "j < length R"
      then have j: "j < length seq" using len by simp
      have "(max s 0 \<le> int j \<and> int j < e) \<longleftrightarrow> (cs \<le> int j \<and> int j < ce)"
        using h j by (auto simp: cs_def ce_def clamp_index_def l_def max_def min_def)
      then show "R ! j = Rc ! j"
        using nthR nthRc j len by simp
    qed
  qed
  with lenR nthR show ?thesis
    by (simp add: R_def Rc_def cs_def ce_def l_def)
qed

text \<open>
  C5, amended: \<open>fill\<close> never rejects a call and does not clamp. For integer indices with
  \<open>end \<le> 2^32 - 1\<close> (and a start from \<open>-2^53\<close> on, where counting up is exact), the
  result has \<open>max(length, end)\<close> slots when \<open>start < end\<close> and \<open>length\<close> slots
  otherwise; slot \<open>j\<close> holds the value when \<open>max(start, 0) \<le> j < end\<close>, the input's
  element when \<open>j\<close> is any other position of the input, and is empty otherwise (the
  positions from the input's length up to \<open>start\<close>). Besides its slots, the result owns
  the property \<open>j\<close> with the value for every negative integer \<open>j\<close> with
  \<open>start \<le> j < end\<close>, and no other. So the elements of the result are those of the
  call with clamped indices exactly when \<open>end \<le> length\<close> or \<open>end \<le> start\<close>, and the
  result is a sequence longer than the input in every other case; the returned array
  as a whole equals that of the clamped call exactly when \<open>end \<le> start\<close> or the
  indices are in bounds (\<open>0 \<le> start\<close> and \<open>end \<le> length\<close>).
\<close>

theorem fill_out_of_bounds:
  assumes "cells (h ! c) = map Some seq" and "e \<le> 4294967295"
    and "- 9007199254740992 \<le> s"
  shows "length (fill_result h c v s e) =
           (if s < e then max (length seq) (nat e) else length seq)
         \<and> (\<forall>j < length (fill_result h c v s e).
              fill_result h c v s e ! j =
                (if max s 0 \<le> int j \<and> int j < e then Some v
                 else if j < length seq then Some (seq ! j) else None))
         \<and> cells (fill_object h c v s e) = fill_result h c v s e
         \<and> (\<forall>j. props (fill_object h c v s e) j =
                (if s \<le> j \<and> j < e \<and> j < 0 then Some v else None))
         \<and> (fill_result h c v s e =
              fill_result h c v (clamp_index (int (length seq)) s) (clamp_index (int (length seq)) e)
            \<longleftrightarrow> e \<le> int (length seq) \<or> e \<le> s)
         \<and> (fill_object h c v s e =
              fill_object h c v (clamp_index (int (length seq)) s) (clamp_index (int (length seq)) e)
            \<longleftrightarrow> e \<le> s \<or> (0 \<le> s \<and> e \<le> int (length seq)))"
proof -
  note S = fill_slots_out_of_bounds [OF assms(1,2), of v s]
  from S have r: "fill_result h c v s e =
              fill_result h c v (clamp_index (int (length seq)) s) (clamp_index (int (length seq)) e)
            \<longleftrightarrow> e \<le> int (length seq) \<or> e \<le> s"
    by blast
  note O = fill_object_eq_iff [OF assms(1,2) r]
  have P: "\<forall>j. props (fill_object h c v s e) j =
                (if s \<le> j \<and> j < e \<and> j < 0 then Some v else None)"
    by (simp add: fill_object_props [OF assms(2)])
  from S O P cells_fill_object [of h c v s e] show ?thesis by blast
qed

theorem fill_out_of_bounds_witness:
  "cells ([dense [4, 6 :: int]] ! 0) = map Some [4, 6] \<and> (5::int) \<le> 4294967295
   \<and> - 9007199254740992 \<le> (3::int)
   \<and> length (fill_result [dense [4, 6 :: int]] 0 0 3 5) = 5
   \<and> fill_result [dense [4, 6 :: int]] 0 0 3 5 ! 2 = None
   \<and> fill_result [dense [4, 6 :: int]] 0 0 3 5 ! 4 = Some 0
   \<and> fill_result [dense [4, 6 :: int]] 0 0 3 5 \<noteq> fill_result [dense [4, 6 :: int]] 0 0 2 2
   \<and> (1::int) \<le> 4294967295 \<and> - 9007199254740992 \<le> (- 2 :: int)
   \<and> length (fill_result [dense [4, 6 :: int]] 0 0 (- 2) 1) = 2
   \<and> fill_result [dense [4, 6 :: int]] 0 0 (- 2) 1 ! 0 = Some 0
   \<and> props (fill_object [dense [4, 6 :: int]] 0 0 (- 2) 1) (- 1) = Some 0
   \<and> fill_result [dense [4, 6 :: int]] 0 0 (- 2) 1 = fill_result [dense [4, 6 :: int]] 0 0 0 1
   \<and> fill_object [dense [4, 6 :: int]] 0 0 (- 2) 1 \<noteq> fill_object [dense [4, 6 :: int]] 0 0 0 1"
  using fill_out_of_bounds [of "[dense [4, 6 :: int]]" 0 "[4, 6]" 5 3 0]
    fill_out_of_bounds [of "[dense [4, 6 :: int]]" 0 "[4, 6]" 1 "- 2" 0]
  by (simp add: dense_def clamp_index_def fill_result_def fill_object_def fill_def alloc_def
      array_slice_copy fill_loop.simps array_put_def)

end
